theory Spec2Isabelle
  imports Main "HOL-Library.Word"
begin

section \<open>Migration engine (lib/db/migrate.go)\<close>

subsection \<open>Library functions used by discovery\<close>

text \<open>
  \<open>strconv.Atoi\<close> of the Go standard library, for a 64-bit \<open>int\<close>: an optional sign, then
  one or more decimal digits; the digits are accumulated in an unsigned 64-bit value and
  the loop stops at the first byte that is not a digit (\<open>ErrSyntax\<close>) or at the first
  overflow (\<open>ErrRange\<close>), whichever comes first.
\<close>

datatype num_error = ErrSyntax | ErrRange

definition is_digit :: "char \<Rightarrow> bool" where
  "is_digit c \<longleftrightarrow> 48 \<le> (of_char c :: int) \<and> (of_char c :: int) \<le> 57"

definition digit_val :: "char \<Rightarrow> int" where
  "digit_val c = of_char c - 48"

fun parse_digits :: "string \<Rightarrow> int \<Rightarrow> num_error + int" where
  "parse_digits [] acc = Inr acc"
| "parse_digits (c # cs) acc =
     (if \<not> is_digit c then Inl ErrSyntax
      else if acc \<ge> 2 ^ 64 div 10 + 1 then Inl ErrRange
      else if acc * 10 + digit_val c > 2 ^ 64 - 1 then Inl ErrRange
      else parse_digits cs (acc * 10 + digit_val c))"

definition ParseUint :: "string \<Rightarrow> num_error + int" where
  "ParseUint s = (if s = [] then Inl ErrSyntax else parse_digits s 0)"

definition Atoi :: "string \<Rightarrow> num_error + int" where
  "Atoi s =
     (case s of
        [] \<Rightarrow> Inl ErrSyntax
      | c # cs \<Rightarrow>
          (let neg = (c = CHR ''-'');
               ds = (if c = CHR ''+'' \<or> c = CHR ''-'' then cs else s)
           in case ParseUint ds of
                Inl err \<Rightarrow> Inl err
              | Inr un \<Rightarrow>
                  if \<not> neg \<and> un \<ge> 2 ^ 63 then Inl ErrRange
                  else if neg \<and> un > 2 ^ 63 then Inl ErrRange
                  else Inr (if neg then - un else un)))"

text \<open>\<open>strings.HasPrefix(name, ".")\<close>.\<close>

definition hidden :: "string \<Rightarrow> bool" where
  "hidden nm = (case nm of [] \<Rightarrow> False | c # _ \<Rightarrow> c = CHR ''.'')"

text \<open>
  \<open>strings.SplitN(name, "_", 2)[0]\<close>: the text before the first underscore, the whole
  name when it has none. The slice always has a first element.
\<close>

definition parts0 :: "string \<Rightarrow> string" where
  "parts0 nm = takeWhile (\<lambda>c. c \<noteq> CHR ''_'') nm"

subsection \<open>Data\<close>

record migration =
  v :: int
  name :: string
  sql :: string

text \<open>An \<open>fs.DirEntry\<close>: what \<open>IsDir()\<close> and \<open>Name()\<close> answer.\<close>

record dir_entry =
  IsDir :: bool
  Name :: string

text \<open>
  The \<open>fs.FS\<close> handed to \<open>Migrate\<close>: the outcome of \<open>fs.ReadDir(dir, "migrations")\<close>, and
  of \<open>dir.Open\<close> followed by \<open>io.ReadAll\<close> on a path. The two read steps fail with the
  same wrapped message, so they are one fallible step here; \<open>Inl\<close> carries the cause.
\<close>

record filesystem =
  ReadDir :: "string + dir_entry list"
  ReadAll :: "string \<Rightarrow> string + string"

datatype db_error = ErrTxDone | DriverError string

datatype migrate_error =
    ReaddirFailed string
  | BadName string num_error
  | DuplicateVersion int string string
  | ReadFailed string string
  | BeginFailed db_error
  | CreateTableFailed db_error
  | CurrentVersionFailed db_error
  | ExecFailed int string db_error
  | RecordFailed int db_error
  | CommitFailed db_error

subsection \<open>The datastore behind \<open>*sql.DB\<close>\<close>

text \<open>
  The persisted state: the rows of \<open>schema_migrations\<close> in insertion order (\<open>None\<close> while
  the table does not exist) and everything else the SQL engine stores, of a type the
  engine chooses.
\<close>

record 's database =
  ledger :: "int list option"
  schema :: 's

text \<open>
  The handle: the committed state and, while a transaction is open, its working copy.
  The engine's transactions are atomic: statements act on the working copy, a successful
  commit installs it, and nothing else changes the committed state. A commit that fails
  closes the transaction and installs nothing.
\<close>

record 's sqldb =
  durable :: "'s database"
  active :: "'s database option"

text \<open>
  The SQL engine is a parameter: \<open>run_sql\<close> executes a migration body on the working
  copy and may fail for any reason; \<open>fault\<close> says which of the other driver calls of a
  run fail for a reason outside the data (lost connection, cancelled context, I/O). A
  body acts inside the transaction it is executed in: it may change any table, the
  ledger included, but it has no transaction control of its own.
\<close>

datatype db_op = OpBegin | OpCreateTable | OpCurrentVersion | OpRecord int | OpCommit | OpRollback

record 's engine =
  run_sql :: "string \<Rightarrow> 's database \<Rightarrow> string + 's database"
  fault :: "db_op \<Rightarrow> string option"

text \<open>
  The three statement shapes \<open>Migrate\<close> sends through \<open>tx.ExecContext\<close>. The table has
  an integer primary key, so inserting a version twice fails. A statement that fails
  leaves the working copy as it was; \<open>Migrate\<close> returns right after it and the
  transaction is rolled back, so nothing depends on that.
\<close>

datatype stmt =
    CreateLedger  \<comment> \<open>CREATE TABLE IF NOT EXISTS schema_migrations(version INTEGER PRIMARY KEY);\<close>
  | InsertVersion int  \<comment> \<open>INSERT INTO schema_migrations(version) VALUES (?)\<close>
  | Script string  \<comment> \<open>the body of a migration file\<close>

fun exec_stmt :: "'s engine \<Rightarrow> stmt \<Rightarrow> 's database \<Rightarrow> db_error + 's database" where
  "exec_stmt eng CreateLedger d =
     (case fault eng OpCreateTable of
        Some c \<Rightarrow> Inl (DriverError c)
      | None \<Rightarrow> Inr (case ledger d of None \<Rightarrow> d\<lparr>ledger := Some []\<rparr> | Some _ \<Rightarrow> d))"
| "exec_stmt eng (InsertVersion x) d =
     (case fault eng (OpRecord x) of
        Some c \<Rightarrow> Inl (DriverError c)
      | None \<Rightarrow>
          (case ledger d of
             None \<Rightarrow> Inl (DriverError ''no such table: schema_migrations'')
           | Some xs \<Rightarrow>
               if x \<in> set xs
               then Inl (DriverError ''UNIQUE constraint failed: schema_migrations.version'')
               else Inr (d\<lparr>ledger := Some (xs @ [x])\<rparr>)))"
| "exec_stmt eng (Script q) d =
     (case run_sql eng q d of Inl c \<Rightarrow> Inl (DriverError c) | Inr d' \<Rightarrow> Inr d')"

text \<open>\<open>SELECT COALESCE(MAX(version), 0) FROM schema_migrations\<close>.\<close>

definition max_version :: "int list \<Rightarrow> int" where
  "max_version xs = (case xs of [] \<Rightarrow> 0 | x # r \<Rightarrow> fold max r x)"

definition select_current :: "'s engine \<Rightarrow> 's database \<Rightarrow> db_error + int" where
  "select_current eng d =
     (case fault eng OpCurrentVersion of
        Some c \<Rightarrow> Inl (DriverError c)
      | None \<Rightarrow>
          (case ledger d of
             None \<Rightarrow> Inl (DriverError ''no such table: schema_migrations'')
           | Some xs \<Rightarrow> Inr (max_version xs)))"

text \<open>\<open>db.BeginTx\<close>, \<open>tx.ExecContext\<close>, \<open>tx.QueryRowContext(...).Scan\<close>, \<open>tx.Commit\<close>, \<open>tx.Rollback\<close>.\<close>

definition BeginTx :: "'s engine \<Rightarrow> 's sqldb \<Rightarrow> db_error option \<times> 's sqldb" where
  "BeginTx eng db =
     (case fault eng OpBegin of
        Some c \<Rightarrow> (Some (DriverError c), db)
      | None \<Rightarrow> (None, db\<lparr>active := Some (durable db)\<rparr>))"

definition ExecContext_tx :: "'s engine \<Rightarrow> stmt \<Rightarrow> 's sqldb \<Rightarrow> db_error option \<times> 's sqldb" where
  "ExecContext_tx eng s db =
     (case active db of
        None \<Rightarrow> (Some ErrTxDone, db)
      | Some w \<Rightarrow>
          (case exec_stmt eng s w of
             Inl e \<Rightarrow> (Some e, db)
           | Inr w' \<Rightarrow> (None, db\<lparr>active := Some w'\<rparr>)))"

definition QueryRow_current :: "'s engine \<Rightarrow> 's sqldb \<Rightarrow> db_error + int" where
  "QueryRow_current eng db =
     (case active db of None \<Rightarrow> Inl ErrTxDone | Some w \<Rightarrow> select_current eng w)"

definition Commit :: "'s engine \<Rightarrow> 's sqldb \<Rightarrow> db_error option \<times> 's sqldb" where
  "Commit eng db =
     (case active db of
        None \<Rightarrow> (Some ErrTxDone, db)
      | Some w \<Rightarrow>
          (case fault eng OpCommit of
             Some c \<Rightarrow> (Some (DriverError c), db\<lparr>active := None\<rparr>)
           | None \<Rightarrow> (None, \<lparr>durable = w, active = None\<rparr>)))"

definition Rollback :: "'s engine \<Rightarrow> 's sqldb \<Rightarrow> db_error option \<times> 's sqldb" where
  "Rollback eng db =
     (case active db of
        None \<Rightarrow> (Some ErrTxDone, db)
      | Some w \<Rightarrow>
          (case fault eng OpRollback of
             Some c \<Rightarrow> (Some (DriverError c), db\<lparr>active := None\<rparr>)
           | None \<Rightarrow> (None, db\<lparr>active := None\<rparr>)))"

subsection \<open>Migrate\<close>

text \<open>
  What \<open>Migrate\<close> hands to the logger, one value for each call of \<open>logger.Info\<close> and
  \<open>logger.Error\<close> (the duration of \<open>db.migrate.done\<close> left out). Whether the logger
  prints a line is decided by its level, outside \<open>Migrate\<close>.
\<close>

datatype log_event =
    RollbackLogged db_error  \<comment> \<open>logger.Error "db.migrate.rollback"\<close>
  | Applied int string  \<comment> \<open>logger.Info "db.migrate.applied" version name\<close>
  | Done nat  \<comment> \<open>logger.Info "db.migrate.done" applied\<close>

text \<open>The loop over the directory entries (lines 34 to 68), with \<open>ms\<close> and \<open>seen\<close>.\<close>

fun discover ::
  "filesystem \<Rightarrow> dir_entry list \<Rightarrow> migration list \<Rightarrow> (int \<rightharpoonup> string)
     \<Rightarrow> migrate_error + migration list" where
  "discover fsys [] ms seen = Inr ms"
| "discover fsys (e # es) ms seen =
     (if IsDir e then discover fsys es ms seen
      else if hidden (Name e) then discover fsys es ms seen
      else
        (case Atoi (parts0 (Name e)) of
           Inl err \<Rightarrow> Inl (BadName (Name e) err)
         | Inr x \<Rightarrow>
             (case seen x of
                Some prev \<Rightarrow> Inl (DuplicateVersion x prev (Name e))
              | None \<Rightarrow>
                  (case ReadAll fsys (''migrations/'' @ Name e) of
                     Inl c \<Rightarrow> Inl (ReadFailed (Name e) c)
                   | Inr b \<Rightarrow>
                       discover fsys es (ms @ [\<lparr>v = x, name = Name e, sql = b\<rparr>])
                         (seen(x \<mapsto> Name e))))))"

text \<open>
  The loop over the sorted units (lines 95 to 112); the result carries the error, the
  handle, the counter \<open>applied\<close> and the log lines written.
\<close>

fun apply_loop ::
  "'s engine \<Rightarrow> int \<Rightarrow> migration list \<Rightarrow> 's sqldb
     \<Rightarrow> migrate_error option \<times> 's sqldb \<times> nat \<times> log_event list" where
  "apply_loop eng cur [] db = (None, db, 0, [])"
| "apply_loop eng cur (m # ms) db =
     (if v m \<le> cur then apply_loop eng cur ms db
      else
        (case ExecContext_tx eng (Script (sql m)) db of
           (Some e, db1) \<Rightarrow> (Some (ExecFailed (v m) (name m) e), db1, 0, [])
         | (None, db1) \<Rightarrow>
             (case ExecContext_tx eng (InsertVersion (v m)) db1 of
                (Some e, db2) \<Rightarrow> (Some (RecordFailed (v m) e), db2, 0, [])
              | (None, db2) \<Rightarrow>
                  (case apply_loop eng cur ms db2 of
                     (r, db3, applied, lg) \<Rightarrow>
                       (r, db3, Suc applied, Applied (v m) (name m) # lg)))))"

text \<open>Lines 82 to 125: what runs between the \<open>defer\<close> and the return.\<close>

definition migrate_tx ::
  "'s engine \<Rightarrow> migration list \<Rightarrow> 's sqldb \<Rightarrow> migrate_error option \<times> 's sqldb \<times> log_event list" where
  "migrate_tx eng ms db =
     (case ExecContext_tx eng CreateLedger db of
        (Some e, db1) \<Rightarrow> (Some (CreateTableFailed e), db1, [])
      | (None, db1) \<Rightarrow>
          (case QueryRow_current eng db1 of
             Inl e \<Rightarrow> (Some (CurrentVersionFailed e), db1, [])
           | Inr cur \<Rightarrow>
               (case apply_loop eng cur ms db1 of
                  (Some e, db2, applied, lg) \<Rightarrow> (Some e, db2, lg)
                | (None, db2, applied, lg) \<Rightarrow>
                    (case Commit eng db2 of
                       (Some e, db3) \<Rightarrow> (Some (CommitFailed e), db3, lg)
                     | (None, db3) \<Rightarrow>
                         (None, db3, lg @ (if applied > 0 then [Done applied] else []))))))"

text \<open>The deferred function (lines 76 to 80).\<close>

definition deferred_rollback :: "'s engine \<Rightarrow> 's sqldb \<Rightarrow> 's sqldb \<times> log_event list" where
  "deferred_rollback eng db =
     (case Rollback eng db of
        (None, db') \<Rightarrow> (db', [])
      | (Some e, db') \<Rightarrow> (db', if e \<noteq> ErrTxDone then [RollbackLogged e] else []))"

text \<open>
  \<open>sort.Slice\<close> is not stable, but the versions of discovered units are pairwise
  different (lemma \<open>discover_distinct\<close>), so every sorting algorithm returns the same list.
\<close>

definition Migrate ::
  "filesystem \<Rightarrow> 's engine \<Rightarrow> 's sqldb \<Rightarrow> migrate_error option \<times> 's sqldb \<times> log_event list" where
  "Migrate fsys eng db =
     (case ReadDir fsys of
        Inl c \<Rightarrow> (Some (ReaddirFailed c), db, [])
      | Inr entries \<Rightarrow>
          (case discover fsys entries [] Map.empty of
             Inl e \<Rightarrow> (Some e, db, [])
           | Inr ms0 \<Rightarrow>
               (let ms = sort_key v ms0 in
                case BeginTx eng db of
                  (Some e, db0) \<Rightarrow> (Some (BeginFailed e), db0, [])
                | (None, db0) \<Rightarrow>
                    (case migrate_tx eng ms db0 of
                       (r, db1, lg) \<Rightarrow>
                         (case deferred_rollback eng db1 of
                            (db2, lg2) \<Rightarrow> (r, db2, lg @ lg2))))))"

section \<open>Instrumented driver (lib/db/tracer.go)\<close>

subsection \<open>Library functions used by \<open>compact\<close>\<close>

text \<open>
  A Go string is read here as the sequence of its runes (code points, Go's \<open>int32\<close>), which
  is how \<open>strings.Fields\<close> walks a string that is not pure ASCII. \<open>unicode.IsSpace\<close> is
  the Unicode White_Space property.
\<close>

type_synonym rune = int

definition IsSpace :: "rune \<Rightarrow> bool" where
  "IsSpace r \<longleftrightarrow>
     (9 \<le> r \<and> r \<le> 13) \<or> r = 32 \<or> r = 133 \<or> r = 160 \<or> r = 5760 \<or>
     (8192 \<le> r \<and> r \<le> 8202) \<or> r = 8232 \<or> r = 8233 \<or> r = 8239 \<or> r = 8287 \<or> r = 12288"

text \<open>\<open>strings.ReplaceAll(s, "\n", " ")\<close>: both strings are one rune long.\<close>

definition ReplaceAll_nl :: "rune list \<Rightarrow> rune list" where
  "ReplaceAll_nl s = map (\<lambda>r. if r = 10 then 32 else r) s"

text \<open>
  \<open>strings.Fields\<close>: the maximal runs of runs that are not white space, in order; the
  empty slice when there is none.
\<close>

function Fields :: "rune list \<Rightarrow> rune list list" where
  "Fields s =
     (case dropWhile IsSpace s of
        [] \<Rightarrow> []
      | c # cs \<Rightarrow>
          (c # takeWhile (\<lambda>r. \<not> IsSpace r) cs) # Fields (dropWhile (\<lambda>r. \<not> IsSpace r) cs))"
  by pat_completeness auto
termination
proof (relation "measure length")
  show "wf (measure length)" by simp
next
  fix s :: "rune list" and c cs
  assume eq: "dropWhile IsSpace s = c # cs"
  have "length (dropWhile (\<lambda>r. \<not> IsSpace r) cs) \<le> length cs"
    by (rule length_dropWhile_le)
  also have "length cs < length (dropWhile IsSpace s)"
    by (simp add: eq)
  also have "\<dots> \<le> length s"
    by (rule length_dropWhile_le)
  finally show "(dropWhile (\<lambda>r. \<not> IsSpace r) cs, s) \<in> measure length"
    by simp
qed

declare Fields.simps [simp del]

text \<open>\<open>strings.Join(elems, sep)\<close>.\<close>

fun Join :: "rune list list \<Rightarrow> rune list \<Rightarrow> rune list" where
  "Join [] sep = []"
| "Join [f] sep = f"
| "Join (f # g # fs) sep = f @ sep @ Join (g # fs) sep"

subsection \<open>The tracer\<close>

definition compact :: "rune list \<Rightarrow> rune list" where
  "compact s = Join (Fields (ReplaceAll_nl s)) [32]"

text \<open>
  \<open>maskArgs\<close> returns an \<open>any\<close>: the string \<open>"[masked]"\<close> or the slice it was given.
\<close>

datatype 'a rendered_args = ArgText string | ArgSlice "'a list"

definition maskArgs :: "'a list \<Rightarrow> bool \<Rightarrow> 'a rendered_args" where
  "maskArgs args do_mask = (if do_mask then ArgText ''[masked]'' else ArgSlice args)"

text \<open>
  \<open>Tracer\<close>: \<open>SlowThresh\<close> is a \<open>time.Duration\<close> (nanoseconds, compared only), \<open>SampleEvery\<close>
  a Go \<open>int\<close> of 64 bits, compared as a signed value and converted to \<open>uint64\<close>.
\<close>

record Tracer =
  SlowThresh :: int
  MaskArgs :: bool
  SampleEvery :: "64 word"

datatype driver_error = ErrSkip | BaseError string

text \<open>\<open>err.Error()\<close>.\<close>

fun Error :: "driver_error \<Rightarrow> string" where
  "Error ErrSkip = ''driver: skip fast-path; continue as if unimplemented''"
| "Error (BaseError msg) = msg"

record TxOptions =
  Isolation :: int
  ReadOnly :: bool

text \<open>
  The wrapped \<open>driver.Conn\<close>: its state \<open>'b\<close> and the methods of its dynamic type. \<open>Begin\<close>
  belongs to \<open>driver.Conn\<close>; the three optional interfaces \<open>driver.ConnBeginTx\<close>,
  \<open>driver.ExecerContext\<close> and \<open>driver.QueryerContext\<close> are \<open>None\<close> when the type does not
  implement them. A call returns Go's pair of a value (\<open>None\<close> for \<open>nil\<close>) and an error
  (\<open>None\<close> for \<open>nil\<close>), and the new state. \<open>'a\<close> is \<open>driver.NamedValue\<close>, \<open>'r\<close> stands for the
  driver's \<open>Result\<close>, \<open>Rows\<close> and \<open>Tx\<close> values.
\<close>

type_synonym 'r ret = "'r option \<times> driver_error option"

record ('b, 'a, 'r) driver_conn =
  impl_Begin :: "'b \<Rightarrow> 'r ret \<times> 'b"
  impl_BeginTx :: "(TxOptions \<Rightarrow> 'b \<Rightarrow> 'r ret \<times> 'b) option"
  impl_ExecContext :: "(rune list \<Rightarrow> 'a list \<Rightarrow> 'b \<Rightarrow> 'r ret \<times> 'b) option"
  impl_QueryContext :: "(rune list \<Rightarrow> 'a list \<Rightarrow> 'b \<Rightarrow> 'r ret \<times> 'b) option"

text \<open>
  \<open>tracedConn\<close>: the field \<open>base\<close> is the method table \<open>base\<close> and the state
  \<open>base_state\<close> of the wrapped connection, the field \<open>t\<close> is \<open>conn_t\<close> (a pointer, \<open>None\<close>
  for \<open>nil\<close>) and the field \<open>n\<close> is \<open>conn_n\<close>, a \<open>uint64\<close>.
\<close>

record ('b, 'a, 'r) tracedConn =
  base :: "('b, 'a, 'r) driver_conn"
  base_state :: 'b
  conn_t :: "Tracer option"
  conn_n :: "64 word"

text \<open>
  What the tracer hands to the logger: an event is one call of \<open>logger.ErrorSkipframes\<close>
  or \<open>logger.WarnSkipframes\<close> with these values. Whether the logger prints it is decided
  by its level, outside the tracer.
\<close>

datatype 'a trace_event =
    QueryError string "rune list" "'a rendered_args" int string
      \<comment> \<open>logger.ErrorSkipframes "db.query.error" kind sql args dur err\<close>
  | QuerySlow string "rune list" int
      \<comment> \<open>logger.WarnSkipframes "db.query.slow" kind sql dur\<close>

text \<open>\<open>sampled\<close> dereferences \<open>c.t\<close>: on a nil tracer it panics, which is \<open>None\<close>.\<close>

definition sampled :: "('b, 'a, 'r) tracedConn \<Rightarrow> (bool \<times> ('b, 'a, 'r) tracedConn) option" where
  "sampled c =
     (case conn_t c of
        None \<Rightarrow> None
      | Some tr \<Rightarrow>
          (let n = SampleEvery tr in
           if n \<le>s 1 then Some (True, c)
           else
             (let c' = c\<lparr>conn_n := conn_n c + 1\<rparr>
              in Some (conn_n c' mod n = 0, c'))))"

definition log ::
  "('b, 'a, 'r) tracedConn \<Rightarrow> string \<Rightarrow> rune list \<Rightarrow> 'a list \<Rightarrow> int \<Rightarrow> driver_error option
     \<Rightarrow> (('b, 'a, 'r) tracedConn \<times> 'a trace_event list) option" where
  "log c kind sqlq args dur err =
     (case conn_t c of
        None \<Rightarrow> Some (c, [])
      | Some tr \<Rightarrow>
          (let sqlq' = compact sqlq in
           case err of
             Some e \<Rightarrow>
               Some (c, [QueryError kind sqlq' (maskArgs args (MaskArgs tr)) dur (Error e)])
           | None \<Rightarrow>
               if SlowThresh tr \<le> 0 \<or> dur < SlowThresh tr then Some (c, [])
               else
                 (case sampled c of
                    None \<Rightarrow> None
                  | Some (False, c') \<Rightarrow> Some (c', [])
                  | Some (True, c') \<Rightarrow> Some (c', [QuerySlow kind sqlq' dur]))))"

definition Begin :: "('b, 'a, 'r) tracedConn \<Rightarrow> 'r ret \<times> ('b, 'a, 'r) tracedConn" where
  "Begin c = ((None, Some ErrSkip), c)"

definition BeginTx_conn ::
  "('b, 'a, 'r) tracedConn \<Rightarrow> TxOptions \<Rightarrow> 'r ret \<times> ('b, 'a, 'r) tracedConn" where
  "BeginTx_conn c opts =
     (case impl_BeginTx (base c) of
        None \<Rightarrow> ((None, Some ErrSkip), c)
      | Some cbtx \<Rightarrow>
          (case cbtx opts (base_state c) of (r, b') \<Rightarrow> (r, c\<lparr>base_state := b'\<rparr>)))"

text \<open>
  \<open>ExecContext\<close> and \<open>QueryContext\<close>; \<open>dur\<close> is what \<open>time.Since(start)\<close> reads after the
  wrapped call, an input from the clock.
\<close>

definition ExecContext ::
  "('b, 'a, 'r) tracedConn \<Rightarrow> rune list \<Rightarrow> 'a list \<Rightarrow> int
     \<Rightarrow> ('r ret \<times> ('b, 'a, 'r) tracedConn \<times> 'a trace_event list) option" where
  "ExecContext c q args dur =
     (case impl_ExecContext (base c) of
        None \<Rightarrow> Some ((None, Some ErrSkip), c, [])
      | Some ce \<Rightarrow>
          (case ce q args (base_state c) of
             ((res, err), b') \<Rightarrow>
               (case log (c\<lparr>base_state := b'\<rparr>) ''exec'' q args dur err of
                  None \<Rightarrow> None
                | Some (c', evs) \<Rightarrow> Some ((res, err), c', evs))))"

definition QueryContext ::
  "('b, 'a, 'r) tracedConn \<Rightarrow> rune list \<Rightarrow> 'a list \<Rightarrow> int
     \<Rightarrow> ('r ret \<times> ('b, 'a, 'r) tracedConn \<times> 'a trace_event list) option" where
  "QueryContext c q args dur =
     (case impl_QueryContext (base c) of
        None \<Rightarrow> Some ((None, Some ErrSkip), c, [])
      | Some cq \<Rightarrow>
          (case cq q args (base_state c) of
             ((rows, err), b') \<Rightarrow>
               (case log (c\<lparr>base_state := b'\<rparr>) ''query'' q args dur err of
                  None \<Rightarrow> None
                | Some (c', evs) \<Rightarrow> Some ((rows, err), c', evs))))"

section \<open>Specification-level definitions\<close>

subsection \<open>Query-text normalization in the specification's words\<close>

text \<open>
  Collapse every run of white space to a single space, then trim white space from both
  ends.
\<close>

fun collapse_runs :: "rune list \<Rightarrow> rune list" where
  "collapse_runs [] = []"
| "collapse_runs [c] = [if IsSpace c then 32 else c]"
| "collapse_runs (c # d # cs) =
     (if IsSpace c \<and> IsSpace d then collapse_runs (d # cs)
      else (if IsSpace c then 32 else c) # collapse_runs (d # cs))"

definition trim_ws :: "rune list \<Rightarrow> rune list" where
  "trim_ws s = rev (dropWhile IsSpace (rev (dropWhile IsSpace s)))"

definition normalize_ws :: "rune list \<Rightarrow> rune list" where
  "normalize_ws s = trim_ws (collapse_runs s)"

text \<open>The query text an event carries.\<close>

fun event_sql :: "'a trace_event \<Rightarrow> rune list" where
  "event_sql (QueryError kind sqlq args dur err) = sqlq"
| "event_sql (QuerySlow kind sqlq dur) = sqlq"

subsection \<open>A sequence of operations on one connection\<close>






subsection \<open>A migration run in the specification's words\<close>

text \<open>The entries discovery looks at: neither sub-directories nor hidden names.\<close>

definition visible :: "dir_entry list \<Rightarrow> dir_entry list" where
  "visible es = filter (\<lambda>e. \<not> IsDir e \<and> \<not> hidden (Name e)) es"

text \<open>The shape of an integer: an optional sign, then at least one decimal digit.\<close>

definition int_syntax :: "string \<Rightarrow> bool" where
  "int_syntax s \<longleftrightarrow>
     (let ds = (case s of [] \<Rightarrow> [] | c # cs \<Rightarrow> if c = CHR ''+'' \<or> c = CHR ''-'' then cs else s)
      in ds \<noteq> [] \<and> list_all is_digit ds)"











text \<open>A unit read from a directory entry, and what \<open>seen\<close> holds after the units \<open>ms\<close>.\<close>

definition unit_of :: "filesystem \<Rightarrow> dir_entry \<Rightarrow> migration \<Rightarrow> bool" where
  "unit_of fsys e m \<longleftrightarrow>
     Atoi (parts0 (Name e)) = Inr (v m) \<and> name m = Name e \<and>
     ReadAll fsys (''migrations/'' @ Name e) = Inr (sql m)"

definition seen_inv :: "migration list \<Rightarrow> (int \<rightharpoonup> string) \<Rightarrow> bool" where
  "seen_inv ms seen \<longleftrightarrow> (\<forall>x n. seen x = Some n \<longleftrightarrow> (\<exists>m\<in>set ms. v m = x \<and> name m = n))"



section \<open>Example inputs\<close>

text \<open>A wrapped connection that implements every optional interface and counts its calls.\<close>

definition example_exec :: "rune list \<Rightarrow> int list \<Rightarrow> nat \<Rightarrow> string ret \<times> nat" where
  "example_exec q args b =
     (if q = [] then (None, Some (BaseError ''empty statement'')) else (Some ''result'', None), Suc b)"

definition example_query :: "rune list \<Rightarrow> int list \<Rightarrow> nat \<Rightarrow> string ret \<times> nat" where
  "example_query q args b =
     (if q = [] then (None, Some (BaseError ''empty query'')) else (Some ''rows'', None), Suc b)"

definition example_base :: "(nat, int, string) driver_conn" where
  "example_base =
     \<lparr>impl_Begin = (\<lambda>b. ((Some ''tx'', None), Suc b)),
      impl_BeginTx = Some (\<lambda>opts b. ((Some ''tx'', None), Suc b)),
      impl_ExecContext = Some example_exec,
      impl_QueryContext = Some example_query\<rparr>"

definition example_tracer :: Tracer where
  "example_tracer = \<lparr>SlowThresh = 100, MaskArgs = True, SampleEvery = 3\<rparr>"

definition example_conn :: "(nat, int, string) tracedConn" where
  "example_conn =
     \<lparr>base = example_base, base_state = 0, conn_t = Some example_tracer, conn_n = 0\<rparr>"

definition example_sql :: "rune list" where
  "example_sql = map of_char ''  SELECT\<newline>  *\<newline> FROM   t''"




text \<open>
  A directory in the order \<open>fs.ReadDir\<close> lists it (by file name), an engine whose state is
  the list of the scripts it has run, and an empty datastore.
\<close>

definition example_files :: "string \<Rightarrow> string + string" where
  "example_files p =
     (if p = ''migrations/2_users.sql'' then Inr ''CREATE TABLE users(id INTEGER PRIMARY KEY);''
      else if p = ''migrations/10_posts.sql'' then Inr ''CREATE TABLE posts(id INTEGER PRIMARY KEY);''
      else if p = ''migrations/11_bad.sql'' then Inr ''INVALID SQL SYNTAX HERE;''
      else if p = ''migrations/42'' then Inr ''CREATE TABLE answers(id INTEGER PRIMARY KEY);''
      else if p = ''migrations/01_a.sql'' then Inr ''CREATE TABLE a(id INTEGER PRIMARY KEY);''
      else if p = ''migrations/1_a.sql'' then Inr ''CREATE TABLE b(id INTEGER PRIMARY KEY);''
      else Inl ''file does not exist'')"



definition no_separator_fs :: filesystem where
  "no_separator_fs = \<lparr>ReadDir = Inr [\<lparr>IsDir = False, Name = ''42''\<rparr>], ReadAll = example_files\<rparr>"

definition malformed_fs :: filesystem where
  "malformed_fs =
     \<lparr>ReadDir = Inr [\<lparr>IsDir = False, Name = ''2_users.sql''\<rparr>,
                    \<lparr>IsDir = False, Name = ''abc_invalid.sql''\<rparr>],
      ReadAll = example_files\<rparr>"

definition duplicate_fs :: filesystem where
  "duplicate_fs =
     \<lparr>ReadDir = Inr [\<lparr>IsDir = False, Name = ''01_a.sql''\<rparr>,
                    \<lparr>IsDir = False, Name = ''1_a.sql''\<rparr>],
      ReadAll = example_files\<rparr>"

definition shadowed_duplicate_fs :: filesystem where
  "shadowed_duplicate_fs =
     \<lparr>ReadDir = Inr [\<lparr>IsDir = False, Name = ''01_a.sql''\<rparr>,
                    \<lparr>IsDir = False, Name = ''0x_b.sql''\<rparr>,
                    \<lparr>IsDir = False, Name = ''1_a.sql''\<rparr>],
      ReadAll = example_files\<rparr>"

definition example_engine :: "string list engine" where
  "example_engine =
     \<lparr>run_sql = (\<lambda>q d. if q = ''INVALID SQL SYNTAX HERE;'' then Inl ''syntax error''
                         else Inr (d\<lparr>schema := schema d @ [q]\<rparr>)),
      fault = (\<lambda>op. None)\<rparr>"

definition empty_db :: "string list sqldb" where
  "empty_db = \<lparr>durable = \<lparr>ledger = None, schema = []\<rparr>, active = None\<rparr>"



section \<open>Properties of the instrumented driver\<close>

subsection \<open>The tracer always returns\<close>

lemma sampled_returns:
  "conn_t c = Some tr \<Longrightarrow>
   \<exists>s c'. sampled c = Some (s, c') \<and> base c' = base c \<and> base_state c' = base_state c
     \<and> conn_t c' = conn_t c"
  by (auto simp: sampled_def Let_def)

lemma log_returns:
  "\<exists>c' evs. log c kind q args dur err = Some (c', evs) \<and> base c' = base c
     \<and> base_state c' = base_state c \<and> conn_t c' = conn_t c"
proof (cases "conn_t c")
  case None
  then show ?thesis by (simp add: log_def)
next
  case (Some tr)
  from sampled_returns [OF Some] obtain s c' where
    "sampled c = Some (s, c')" "base c' = base c" "base_state c' = base_state c"
    "conn_t c' = conn_t c"
    by blast
  with Some show ?thesis
    by (cases s) (auto simp: log_def Let_def split: option.splits)
qed


subsection \<open>Results and errors pass through\<close>

text \<open>
  Claim C3. When the wrapped connection implements \<open>driver.ExecerContext\<close> (respectively
  \<open>driver.QueryerContext\<close>), \<open>ExecContext\<close> (respectively \<open>QueryContext\<close>) of the traced
  connection returns, and what it returns is exactly the pair of value and error that the
  wrapped call produced, whatever the tracer settings, the measured duration and the
  events logged; the wrapped connection is left in the state its own call left it in.
\<close>

theorem traced_calls_return_base_result:
  "(impl_ExecContext (base c) = Some ce \<longrightarrow>
      (\<exists>c' evs. ExecContext c q args dur = Some (fst (ce q args (base_state c)), c', evs)
         \<and> base_state c' = snd (ce q args (base_state c)))) \<and>
   (impl_QueryContext (base c) = Some cq \<longrightarrow>
      (\<exists>c' evs. QueryContext c q args dur = Some (fst (cq q args (base_state c)), c', evs)
         \<and> base_state c' = snd (cq q args (base_state c))))"
proof (intro conjI impI)
  assume ce: "impl_ExecContext (base c) = Some ce"
  obtain res err b' where r: "ce q args (base_state c) = ((res, err), b')"
    by (metis prod.exhaust)
  from log_returns [of "c\<lparr>base_state := b'\<rparr>" "''exec''" q args dur err]
  obtain c' evs where "log (c\<lparr>base_state := b'\<rparr>) ''exec'' q args dur err = Some (c', evs)"
    and "base_state c' = b'" by auto
  with ce r show "\<exists>c' evs. ExecContext c q args dur = Some (fst (ce q args (base_state c)), c', evs)
         \<and> base_state c' = snd (ce q args (base_state c))"
    by (simp add: ExecContext_def)
next
  assume cq: "impl_QueryContext (base c) = Some cq"
  obtain rows err b' where r: "cq q args (base_state c) = ((rows, err), b')"
    by (metis prod.exhaust)
  from log_returns [of "c\<lparr>base_state := b'\<rparr>" "''query''" q args dur err]
  obtain c' evs where "log (c\<lparr>base_state := b'\<rparr>) ''query'' q args dur err = Some (c', evs)"
    and "base_state c' = b'" by auto
  with cq r show "\<exists>c' evs. QueryContext c q args dur = Some (fst (cq q args (base_state c)), c', evs)
         \<and> base_state c' = snd (cq q args (base_state c))"
    by (simp add: QueryContext_def)
qed

theorem traced_calls_return_base_result_witness:
  "impl_ExecContext (base example_conn) = Some example_exec \<and>
   impl_QueryContext (base example_conn) = Some example_query \<and>
   fst (the (ExecContext example_conn [] [7] 5)) = (None, Some (BaseError ''empty statement'')) \<and>
   fst (the (QueryContext example_conn [83] [7] 5)) = (Some ''rows'', None)"
  using traced_calls_return_base_result
    [where c = example_conn and ce = example_exec and cq = example_query and q = "[]"
       and args = "[7]" and dur = 5]
    traced_calls_return_base_result
    [where c = example_conn and ce = example_exec and cq = example_query and q = "[83]"
       and args = "[7]" and dur = 5]
  by (auto simp: example_conn_def example_base_def example_exec_def example_query_def)

subsection \<open>Masked arguments\<close>



subsection \<open>Begin\<close>

text \<open>
  Claim C10. \<open>Begin\<close> of a traced connection returns no transaction and \<open>driver.ErrSkip\<close>
  and leaves the connection, the wrapped one included, untouched, whatever the wrapped
  connection implements; \<open>BeginTx\<close> is the only way through: it hands the call to the
  wrapped \<open>driver.ConnBeginTx\<close> when there is one and answers \<open>driver.ErrSkip\<close> otherwise.
\<close>

theorem Begin_never_delegates:
  "Begin c = ((None, Some ErrSkip), c) \<and>
   BeginTx_conn c opts =
     (case impl_BeginTx (base c) of
        None \<Rightarrow> ((None, Some ErrSkip), c)
      | Some cbtx \<Rightarrow>
          (fst (cbtx opts (base_state c)), c\<lparr>base_state := snd (cbtx opts (base_state c))\<rparr>))"
  by (simp add: Begin_def BeginTx_conn_def split: option.splits prod.splits)

subsection \<open>Query-text normalization\<close>

lemma IsSpace_32 [simp]: "IsSpace 32"
  by (simp add: IsSpace_def)

lemma Fields_Nil [simp]: "Fields [] = []"
  by (simp add: Fields.simps)

lemma Fields_space [simp]: "IsSpace c \<Longrightarrow> Fields (c # cs) = Fields cs"
  by (subst Fields.simps, subst (2) Fields.simps) simp

lemma Fields_nonspace:
  "\<not> IsSpace c \<Longrightarrow>
   Fields (c # cs) =
     (c # takeWhile (\<lambda>r. \<not> IsSpace r) cs) # Fields (dropWhile (\<lambda>r. \<not> IsSpace r) cs)"
  by (subst Fields.simps) simp

lemma Fields_nonspace_end:
  "\<not> IsSpace c \<Longrightarrow> cs = [] \<or> IsSpace (hd cs) \<Longrightarrow> Fields (c # cs) = [c] # Fields cs"
  by (cases cs) (auto simp: Fields_nonspace)

lemma Fields_nonspace_more:
  "\<not> IsSpace c \<Longrightarrow> \<not> IsSpace d \<Longrightarrow>
   \<exists>f fs. Fields (d # cs) = f # fs \<and> Fields (c # d # cs) = (c # f) # fs"
  by (simp add: Fields_nonspace)

lemma Fields_empty_iff: "Fields s = [] \<longleftrightarrow> (\<forall>r\<in>set s. IsSpace r)"
proof (induction s)
  case Nil
  show ?case by simp
next
  case (Cons a s)
  then show ?case by (cases "IsSpace a") (simp_all add: Fields_nonspace)
qed

lemma Join_Cons_Cons: "Join ((c # f) # fs) sep = c # Join (f # fs) sep"
  by (cases fs) auto

lemma Join_single_Cons: "fs \<noteq> [] \<Longrightarrow> Join (f # fs) sep = f @ sep @ Join fs sep"
  by (cases fs) auto

text \<open>
  Collapsing the runs of a string gives its fields joined by single spaces, with one more
  space in front when the string starts with white space and one more at the end when it
  ends with white space after a field.
\<close>

lemma collapse_runs_Fields:
  "collapse_runs s =
     (if s \<noteq> [] \<and> IsSpace (hd s) then [32] else []) @ Join (Fields s) [32] @
     (if Fields s \<noteq> [] \<and> IsSpace (last s) then [32] else [])"
proof (induction s rule: collapse_runs.induct)
  case 1
  show ?case by simp
next
  case (2 c)
  show ?case by (simp add: Fields_nonspace)
next
  case (3 c d cs)
  show ?case
  proof (cases "IsSpace c")
    case True
    with 3 show ?thesis by (cases "IsSpace d") auto
  next
    case c: False
    show ?thesis
    proof (cases "IsSpace d")
      case True
      with c have F: "Fields (c # d # cs) = [c] # Fields (d # cs)"
        by (simp add: Fields_nonspace_end)
      show ?thesis
      proof (cases "Fields (d # cs) = []")
        case True
        then have "\<forall>r\<in>set (d # cs). IsSpace r" by (simp only: Fields_empty_iff)
        then have "IsSpace (last (d # cs))" using last_in_set [of "d # cs"] by blast
        with 3 c \<open>IsSpace d\<close> True F show ?thesis by simp
      next
        case False
        with 3 c \<open>IsSpace d\<close> F show ?thesis by (simp add: Join_single_Cons)
      qed
    next
      case False
      with c obtain f fs where "Fields (d # cs) = f # fs" "Fields (c # d # cs) = (c # f) # fs"
        using Fields_nonspace_more by blast
      with 3 c False show ?thesis by (simp add: Join_Cons_Cons)
    qed
  qed
qed

lemma Fields_fields: "f \<in> set (Fields s) \<Longrightarrow> f \<noteq> [] \<and> (\<forall>r\<in>set f. \<not> IsSpace r)"
proof (induction s arbitrary: f rule: Fields.induct)
  case (1 s)
  show ?case
  proof (cases "dropWhile IsSpace s")
    case Nil
    with 1(2) show ?thesis by (simp add: Fields.simps [of s])
  next
    case (Cons c cs)
    have c: "\<not> IsSpace c" using hd_dropWhile [of IsSpace s] Cons by auto
    from 1(2) Cons
    have "f = c # takeWhile (\<lambda>r. \<not> IsSpace r) cs
            \<or> f \<in> set (Fields (dropWhile (\<lambda>r. \<not> IsSpace r) cs))"
      by (simp add: Fields.simps [of s])
    then show ?thesis
    proof
      assume "f = c # takeWhile (\<lambda>r. \<not> IsSpace r) cs"
      with c show ?thesis by (auto dest: set_takeWhileD)
    next
      assume "f \<in> set (Fields (dropWhile (\<lambda>r. \<not> IsSpace r) cs))"
      with 1(1) [OF Cons] show ?thesis by blast
    qed
  qed
qed

lemma Join_ends:
  "fs \<noteq> [] \<Longrightarrow> \<forall>f\<in>set fs. f \<noteq> [] \<and> (\<forall>r\<in>set f. \<not> IsSpace r) \<Longrightarrow>
   Join fs [32] \<noteq> [] \<and> \<not> IsSpace (hd (Join fs [32])) \<and> \<not> IsSpace (last (Join fs [32]))"
proof (induction fs "[32::int]" rule: Join.induct)
  case 1
  then show ?case by simp
next
  case (2 f)
  then show ?case by (cases f) auto
next
  case (3 f g fs)
  then show ?case by (cases f) auto
qed

lemma trim_ws_core:
  assumes "J \<noteq> []" "\<not> IsSpace (hd J)" "\<not> IsSpace (last J)"
    and "\<forall>r\<in>set a. IsSpace r" "\<forall>r\<in>set b. IsSpace r"
  shows "trim_ws (a @ J @ b) = J"
proof -
  obtain x xs where J: "J = x # xs" using assms(1) by (cases J) auto
  have 1: "dropWhile IsSpace (a @ J @ b) = J @ b"
    using assms(2,4) J by (simp add: dropWhile_append)
  obtain y ys where R: "rev J = y # ys" using assms(1) by (cases "rev J") auto
  have "y = last J" using R assms(1) by (metis hd_rev list.sel(1))
  with assms(3) have y: "\<not> IsSpace y" by simp
  have 2: "dropWhile IsSpace (rev b @ (y # ys)) = y # ys"
    using assms(5) y by (simp add: dropWhile_append)
  have "trim_ws (a @ J @ b) = rev (dropWhile IsSpace (rev b @ rev J))"
    by (simp add: trim_ws_def 1)
  also have "\<dots> = rev (y # ys)"
    by (simp only: R 2)
  also have "\<dots> = J"
    by (simp only: R [symmetric] rev_rev_ident)
  finally show ?thesis .
qed

lemma Join_Fields_normalize_ws: "Join (Fields s) [32] = normalize_ws s"
proof (cases "Fields s = []")
  case True
  then show ?thesis
    by (simp add: normalize_ws_def collapse_runs_Fields trim_ws_def)
next
  case False
  from Join_ends [OF False] Fields_fields [of _ s]
  have J: "Join (Fields s) [32] \<noteq> []" "\<not> IsSpace (hd (Join (Fields s) [32]))"
    "\<not> IsSpace (last (Join (Fields s) [32]))" by blast+
  have "trim_ws ((if s \<noteq> [] \<and> IsSpace (hd s) then [32] else []) @ Join (Fields s) [32] @
     (if Fields s \<noteq> [] \<and> IsSpace (last s) then [32] else [])) = Join (Fields s) [32]"
    by (rule trim_ws_core [OF J]) auto
  then show ?thesis by (simp only: normalize_ws_def collapse_runs_Fields [symmetric])
qed

lemma collapse_runs_ReplaceAll_nl: "collapse_runs (ReplaceAll_nl s) = collapse_runs s"
  by (induction s rule: collapse_runs.induct) (auto simp: ReplaceAll_nl_def IsSpace_def)

lemma compact_normalize_ws: "compact s = normalize_ws s"
  by (simp add: compact_def Join_Fields_normalize_ws normalize_ws_def collapse_runs_ReplaceAll_nl)

lemma Join_runes:
  "r \<in> set (Join fs [32]) \<Longrightarrow> r = 32 \<or> (\<exists>f\<in>set fs. r \<in> set f)"
  by (induction fs "[32::int]" rule: Join.induct) auto

lemma compact_spaces: "r \<in> set (compact s) \<Longrightarrow> IsSpace r \<Longrightarrow> r = 32"
  using Join_runes [of r "Fields (ReplaceAll_nl s)"] Fields_fields [of _ "ReplaceAll_nl s"]
  by (auto simp: compact_def)

lemma log_event_sql:
  "log c kind q args dur err = Some (c', evs) \<Longrightarrow> ev \<in> set evs \<Longrightarrow> event_sql ev = compact q"
  by (auto simp: log_def Let_def split: option.splits if_splits bool.splits)

lemma compact_example_sql: "compact example_sql = map of_char ''SELECT * FROM t''"
  by code_simp

text \<open>
  Claim C9. \<open>compact\<close> is the normalization of the specification: every run of white space
  (newlines and tabs included) collapsed to one space and the result trimmed; the only
  white space left in it is the single space, so it is one line. Every event that \<open>log\<close>,
  \<open>ExecContext\<close> or \<open>QueryContext\<close> emits carries the query text in that form.
\<close>

theorem events_carry_normalized_query:
  "compact q = normalize_ws q \<and>
   (\<forall>r\<in>set (compact q). IsSpace r \<longrightarrow> r = 32) \<and>
   (log c kind q args dur err = Some (c', evs) \<longrightarrow>
      (\<forall>ev\<in>set evs. event_sql ev = normalize_ws q)) \<and>
   (ExecContext c q args dur = Some (r, c', evs) \<longrightarrow>
      (\<forall>ev\<in>set evs. event_sql ev = normalize_ws q)) \<and>
   (QueryContext c q args dur = Some (r, c', evs) \<longrightarrow>
      (\<forall>ev\<in>set evs. event_sql ev = normalize_ws q))"
proof (intro conjI impI ballI)
  show "compact q = normalize_ws q" by (rule compact_normalize_ws)
next
  fix r assume "r \<in> set (compact q)" "IsSpace r"
  then show "r = 32" by (rule compact_spaces)
next
  fix ev assume "log c kind q args dur err = Some (c', evs)" "ev \<in> set evs"
  then show "event_sql ev = normalize_ws q"
    by (simp add: log_event_sql compact_normalize_ws [symmetric])
next
  fix ev assume "ExecContext c q args dur = Some (r, c', evs)" "ev \<in> set evs"
  then show "event_sql ev = normalize_ws q"
    by (auto simp: ExecContext_def compact_normalize_ws [symmetric]
        split: option.splits prod.splits dest: log_event_sql)
next
  fix ev assume "QueryContext c q args dur = Some (r, c', evs)" "ev \<in> set evs"
  then show "event_sql ev = normalize_ws q"
    by (auto simp: QueryContext_def compact_normalize_ws [symmetric]
        split: option.splits prod.splits dest: log_event_sql)
qed

theorem events_carry_normalized_query_witness:
  "log (example_conn\<lparr>conn_n := 2\<rparr>) ''exec'' example_sql [] 250 None =
     Some (example_conn\<lparr>conn_n := 3\<rparr>, [QuerySlow ''exec'' (map of_char ''SELECT * FROM t'') 250]) \<and>
   ExecContext (example_conn\<lparr>conn_n := 2\<rparr>) example_sql [] 250 =
     Some ((Some ''result'', None), example_conn\<lparr>conn_n := 3, base_state := 1\<rparr>,
           [QuerySlow ''exec'' (map of_char ''SELECT * FROM t'') 250]) \<and>
   QueryContext (example_conn\<lparr>conn_n := 2\<rparr>) example_sql [] 250 =
     Some ((Some ''rows'', None), example_conn\<lparr>conn_n := 3, base_state := 1\<rparr>,
           [QuerySlow ''query'' (map of_char ''SELECT * FROM t'') 250]) \<and>
   32 \<in> set (compact example_sql) \<and> IsSpace 32 \<and>
   normalize_ws example_sql = map of_char ''SELECT * FROM t''"
proof -
  let ?c = "example_conn\<lparr>conn_n := 2\<rparr>"
  let ?ev = "\<lambda>kind. [QuerySlow kind (compact example_sql) 250] :: int trace_event list"
  have q: "example_sql \<noteq> []"
    by (simp add: example_sql_def)
  have l: "log ?c ''exec'' example_sql [] 250 None = Some (example_conn\<lparr>conn_n := 3\<rparr>, ?ev ''exec'')"
    by (simp add: log_def example_conn_def example_tracer_def sampled_def word_sle_eq)
  have e: "ExecContext ?c example_sql [] 250 =
      Some ((Some ''result'', None), example_conn\<lparr>conn_n := 3, base_state := 1\<rparr>, ?ev ''exec'')"
    using q by (simp add: ExecContext_def log_def example_conn_def example_tracer_def
        sampled_def word_sle_eq example_base_def example_exec_def)
  have qu: "QueryContext ?c example_sql [] 250 =
      Some ((Some ''rows'', None), example_conn\<lparr>conn_n := 3, base_state := 1\<rparr>, ?ev ''query'')"
    using q by (simp add: QueryContext_def log_def example_conn_def example_tracer_def
        sampled_def word_sle_eq example_base_def example_query_def)
  have s: "32 \<in> set (compact example_sql)"
    by (simp add: compact_example_sql)
  have "\<forall>ev\<in>set (?ev ''exec''). event_sql ev = normalize_ws example_sql"
    by (rule events_carry_normalized_query [where q = example_sql and c = ?c
          and kind = "''exec''" and args = "[]" and dur = 250 and err = None
          and c' = "example_conn\<lparr>conn_n := 3\<rparr>" and evs = "?ev ''exec''",
          THEN conjunct2, THEN conjunct2, THEN conjunct1, THEN mp, OF l])
  then have n: "normalize_ws example_sql = compact example_sql"
    by simp
  show ?thesis
  proof (intro conjI)
    show "normalize_ws example_sql = map of_char ''SELECT * FROM t''"
      by (simp only: n compact_example_sql)
  qed (simp_all only: l e qu s IsSpace_32 compact_example_sql [symmetric])
qed

subsection \<open>Sampling\<close>














section \<open>Properties of the migration engine\<close>

subsection \<open>Discovery\<close>

text \<open>What \<open>Atoi\<close> accepts has the shape of an integer.\<close>

lemma parse_digits_Inr: "parse_digits ds acc = Inr n \<Longrightarrow> list_all is_digit ds"
  by (induction ds arbitrary: acc) (auto split: if_splits)

lemma Atoi_int_syntax: "Atoi s = Inr x \<Longrightarrow> int_syntax s"
  by (cases s)
    (auto simp: Atoi_def int_syntax_def ParseUint_def Let_def
      split: if_splits sum.splits dest: parse_digits_Inr)

lemma Atoi_fails: "\<not> int_syntax s \<Longrightarrow> \<exists>err. Atoi s = Inl err"
  using Atoi_int_syntax [of s] by (cases "Atoi s") auto

text \<open>
  A successful discovery has read every visible entry, in order, into a unit with the
  version \<open>Atoi\<close> reads from the text before the first underscore.
\<close>

lemma discover_Inr:
  "discover fsys es ms seen = Inr out \<Longrightarrow>
   \<exists>new. out = ms @ new \<and> list_all2 (unit_of fsys) (visible es) new"
proof (induction es arbitrary: ms seen)
  case Nil
  then show ?case by (simp add: visible_def)
next
  case (Cons e es)
  show ?case
  proof (cases "IsDir e \<or> hidden (Name e)")
    case True
    with Cons.prems have "discover fsys es ms seen = Inr out" by (auto split: if_splits)
    from Cons.IH [OF this] True show ?thesis by (auto simp: visible_def)
  next
    case False
    with Cons.prems obtain x b where x: "Atoi (parts0 (Name e)) = Inr x" "seen x = None"
      "ReadAll fsys (''migrations/'' @ Name e) = Inr b"
      "discover fsys es (ms @ [\<lparr>v = x, name = Name e, sql = b\<rparr>]) (seen(x \<mapsto> Name e)) = Inr out"
      by (auto split: sum.splits option.splits)
    from Cons.IH [OF x(4)] obtain new where
      "out = (ms @ [\<lparr>v = x, name = Name e, sql = b\<rparr>]) @ new"
      "list_all2 (unit_of fsys) (visible es) new" by blast
    moreover have "unit_of fsys e \<lparr>v = x, name = Name e, sql = b\<rparr>"
      using x(1,3) by (simp add: unit_of_def)
    ultimately show ?thesis
      using False
      by (intro exI [of _ "\<lparr>v = x, name = Name e, sql = b\<rparr> # new"]) (simp add: visible_def)
  qed
qed

text \<open>The versions of the discovered units are pairwise different.\<close>

lemma discover_distinct:
  "discover fsys es ms seen = Inr out \<Longrightarrow> distinct (map v ms) \<Longrightarrow>
   \<forall>m\<in>set ms. seen (v m) \<noteq> None \<Longrightarrow> distinct (map v out)"
proof (induction es arbitrary: ms seen)
  case Nil
  then show ?case by simp
next
  case (Cons e es)
  show ?case
  proof (cases "IsDir e \<or> hidden (Name e)")
    case True
    with Cons.prems have "discover fsys es ms seen = Inr out" by (auto split: if_splits)
    from Cons.IH [OF this Cons.prems(2,3)] show ?thesis .
  next
    case False
    with Cons.prems(1) obtain x b where x: "seen x = None"
      "discover fsys es (ms @ [\<lparr>v = x, name = Name e, sql = b\<rparr>]) (seen(x \<mapsto> Name e)) = Inr out"
      by (auto split: sum.splits option.splits)
    have "x \<notin> v ` set ms" using x(1) Cons.prems(3) by auto
    with Cons.prems(2) have d: "distinct (map v (ms @ [\<lparr>v = x, name = Name e, sql = b\<rparr>]))"
      by simp
    have "\<forall>m\<in>set (ms @ [\<lparr>v = x, name = Name e, sql = b\<rparr>]). (seen(x \<mapsto> Name e)) (v m) \<noteq> None"
      using Cons.prems(3) by auto
    from Cons.IH [OF x(2) d this] show ?thesis .
  qed
qed

text \<open>\<open>seen\<close> maps exactly the versions of the units read so far to their names.\<close>

lemma seen_inv_empty: "seen_inv [] Map.empty"
  by (simp add: seen_inv_def)

lemma seen_inv_step:
  assumes "seen_inv ms seen" "seen x = None"
  shows "seen_inv (ms @ [\<lparr>v = x, name = nm, sql = b\<rparr>]) (seen(x \<mapsto> nm))"
  unfolding seen_inv_def
proof (intro allI)
  fix y n
  show "((seen(x \<mapsto> nm)) y = Some n) =
          (\<exists>m\<in>set (ms @ [\<lparr>v = x, name = nm, sql = b\<rparr>]). v m = y \<and> name m = n)"
  proof (cases "y = x")
    case True
    have "\<not> (\<exists>m\<in>set ms. v m = x \<and> name m = n)"
    proof
      assume "\<exists>m\<in>set ms. v m = x \<and> name m = n"
      with assms(1) have "seen x = Some n" unfolding seen_inv_def by blast
      with assms(2) show False by simp
    qed
    with True show ?thesis by auto
  next
    case False
    with assms(1) show ?thesis by (auto simp: seen_inv_def)
  qed
qed

text \<open>Discovery of a directory listing continues after a prefix that was accepted.\<close>

lemma discover_append:
  "seen_inv ms seen \<Longrightarrow> discover fsys pre ms seen = Inr ms' \<Longrightarrow>
   \<exists>seen'. seen_inv ms' seen' \<and>
     (\<forall>post. discover fsys (pre @ post) ms seen = discover fsys post ms' seen')"
proof (induction pre arbitrary: ms seen)
  case Nil
  then show ?case by auto
next
  case (Cons e pre)
  show ?case
  proof (cases "IsDir e \<or> hidden (Name e)")
    case True
    with Cons.prems have "discover fsys pre ms seen = Inr ms'" by (auto split: if_splits)
    from Cons.IH [OF Cons.prems(1) this] True show ?thesis by auto
  next
    case False
    with Cons.prems(2) obtain x b where x: "Atoi (parts0 (Name e)) = Inr x" "seen x = None"
      "ReadAll fsys (''migrations/'' @ Name e) = Inr b"
      "discover fsys pre (ms @ [\<lparr>v = x, name = Name e, sql = b\<rparr>]) (seen(x \<mapsto> Name e)) = Inr ms'"
      by (auto split: sum.splits option.splits)
    from Cons.IH [OF seen_inv_step [OF Cons.prems(1) x(2)] x(4)] obtain seen' where
      s: "seen_inv ms' seen'"
      "\<And>post. discover fsys (pre @ post) (ms @ [\<lparr>v = x, name = Name e, sql = b\<rparr>])
          (seen(x \<mapsto> Name e)) = discover fsys post ms' seen'"
      by blast
    have "discover fsys ((e # pre) @ post) ms seen = discover fsys post ms' seen'" for post
      using False x(1,2,3) s(2) [of post] by simp
    with s(1) show ?thesis by blast
  qed
qed

lemma discover_stops_at_bad_name:
  assumes "discover fsys pre [] Map.empty = Inr ms" "\<not> IsDir e" "\<not> hidden (Name e)"
    and "Atoi (parts0 (Name e)) = Inl err"
  shows "discover fsys (pre @ e # post) [] Map.empty = Inl (BadName (Name e) err)"
proof -
  from discover_append [OF seen_inv_empty assms(1)] obtain seen' where
    "discover fsys (pre @ e # post) [] Map.empty = discover fsys (e # post) ms seen'" by blast
  with assms(2-4) show ?thesis by simp
qed

lemma discover_stops_at_duplicate:
  assumes "discover fsys pre [] Map.empty = Inr ms" "\<not> IsDir e" "\<not> hidden (Name e)"
    and "Atoi (parts0 (Name e)) = Inr x" "m \<in> set ms" "v m = x"
  shows "discover fsys (pre @ e # post) [] Map.empty = Inl (DuplicateVersion x (name m) (Name e))"
proof -
  from discover_append [OF seen_inv_empty assms(1)] obtain seen' where s: "seen_inv ms seen'"
    "discover fsys (pre @ e # post) [] Map.empty = discover fsys (e # post) ms seen'" by blast
  from s(1) assms(5,6) have "seen' x = Some (name m)"
    by (auto simp: seen_inv_def)
  with s(2) assms(2-4) show ?thesis by simp
qed

lemma discover_fails_on_bad_name:
  assumes "e \<in> set (visible es)" "Atoi (parts0 (Name e)) = Inl err"
  shows "\<exists>er. discover fsys es [] Map.empty = Inl er"
proof (cases "discover fsys es [] Map.empty")
  case (Inl er)
  then show ?thesis by blast
next
  case (Inr out)
  from discover_Inr [OF Inr] have "list_all2 (unit_of fsys) (visible es) out" by simp
  with assms(1) obtain m where "unit_of fsys e m"
    by (auto simp: list_all2_conv_all_nth in_set_conv_nth)
  with assms(2) show ?thesis by (simp add: unit_of_def)
qed

lemma discover_fails_on_duplicate:
  assumes "i < j" "j < length (visible es)"
    and "Atoi (parts0 (Name (visible es ! i))) = Inr x"
    and "Atoi (parts0 (Name (visible es ! j))) = Inr x"
  shows "\<exists>er. discover fsys es [] Map.empty = Inl er"
proof (cases "discover fsys es [] Map.empty")
  case (Inl er)
  then show ?thesis by blast
next
  case (Inr out)
  from discover_Inr [OF Inr] have l: "list_all2 (unit_of fsys) (visible es) out" by simp
  then have len: "length out = length (visible es)" by (simp add: list_all2_lengthD)
  from l assms(1,2) have "unit_of fsys (visible es ! i) (out ! i)" "unit_of fsys (visible es ! j) (out ! j)"
    by (simp_all add: list_all2_conv_all_nth)
  with assms(3,4) have "v (out ! i) = v (out ! j)"
    by (simp add: unit_of_def)
  then have "map v out ! i = map v out ! j"
    using assms(1,2) len by simp
  moreover have "distinct (map v out)"
    using discover_distinct [OF Inr] by simp
  moreover have "i < length (map v out)" "j < length (map v out)"
    using assms(1,2) len by simp_all
  ultimately have "i = j"
    by (simp only: nth_eq_iff_index_eq)
  with assms(1) show ?thesis by simp
qed

lemma list_all2_pick: "list_all2 P xs ys \<Longrightarrow> x \<in> set xs \<Longrightarrow> \<exists>y\<in>set ys. P x y"
  by (induction rule: list_all2_induct) auto

lemma Migrate_discovery_error:
  "ReadDir fsys = Inr es \<Longrightarrow> discover fsys es [] Map.empty = Inl er \<Longrightarrow>
   Migrate fsys eng db = (Some er, db, [])"
  by (simp add: Migrate_def)

text \<open>
  Claim C5 as stated fails for a name without any separator: the file \<open>42\<close> is accepted as
  version 42 and applied.
\<close>

theorem no_separator_counterexample:
  "CHR ''_'' \<notin> set ''42'' \<and>
   Migrate no_separator_fs example_engine empty_db =
     (None,
      \<lparr>durable = \<lparr>ledger = Some [42], schema = [''CREATE TABLE answers(id INTEGER PRIMARY KEY);'']\<rparr>,
       active = None\<rparr>,
      [Applied 42 ''42'', Done 1])"
  by code_simp

text \<open>
  Claim C5, amended. Take a directory listing and a visible entry of it (no sub-directory,
  no hidden name) whose text before the first underscore (the whole name when there is
  none) \<open>Atoi\<close> rejects, as it does every text that is not an optional sign followed by
  decimal digits. Then \<open>Migrate\<close> fails before it begins a transaction: it returns the
  handle it was given and logs nothing. When every entry listed before that one was
  accepted, the error is the bad-name error with the entry's name and the cause.
\<close>

theorem malformed_name_fails_discovery:
  assumes "ReadDir fsys = Inr es" and "e \<in> set (visible es)"
    and "Atoi (parts0 (Name e)) = Inl err"
  shows "(\<exists>er. Migrate fsys eng db = (Some er, db, [])) \<and>
         (es = pre @ e # post \<and> discover fsys pre [] Map.empty = Inr ms \<longrightarrow>
            Migrate fsys eng db = (Some (BadName (Name e) err), db, [])) \<and>
         (\<not> int_syntax s \<longrightarrow> (\<exists>err'. Atoi s = Inl err'))"
proof (intro conjI impI)
  from discover_fails_on_bad_name [OF assms(2,3)] obtain er where
    "discover fsys es [] Map.empty = Inl er" by blast
  from Migrate_discovery_error [OF assms(1) this]
  show "\<exists>er. Migrate fsys eng db = (Some er, db, [])" by blast
next
  assume a: "es = pre @ e # post \<and> discover fsys pre [] Map.empty = Inr ms"
  from assms(2) have "\<not> IsDir e" "\<not> hidden (Name e)"
    by (simp_all add: visible_def)
  from discover_stops_at_bad_name [OF _ this assms(3)] a
  have "discover fsys es [] Map.empty = Inl (BadName (Name e) err)" by blast
  from Migrate_discovery_error [OF assms(1) this]
  show "Migrate fsys eng db = (Some (BadName (Name e) err), db, [])" .
next
  assume "\<not> int_syntax s"
  then show "\<exists>err'. Atoi s = Inl err'" by (rule Atoi_fails)
qed

theorem malformed_name_fails_discovery_witness:
  "ReadDir malformed_fs =
     Inr ([\<lparr>IsDir = False, Name = ''2_users.sql''\<rparr>] @ \<lparr>IsDir = False, Name = ''abc_invalid.sql''\<rparr> # []) \<and>
   \<lparr>IsDir = False, Name = ''abc_invalid.sql''\<rparr> \<in> set (visible (projr (ReadDir malformed_fs))) \<and>
   Atoi (parts0 ''abc_invalid.sql'') = Inl ErrSyntax \<and>
   \<not> int_syntax ''abc'' \<and>
   discover malformed_fs [\<lparr>IsDir = False, Name = ''2_users.sql''\<rparr>] [] Map.empty =
     Inr [\<lparr>v = 2, name = ''2_users.sql'', sql = ''CREATE TABLE users(id INTEGER PRIMARY KEY);''\<rparr>] \<and>
   Migrate malformed_fs example_engine empty_db =
     (Some (BadName ''abc_invalid.sql'' ErrSyntax), empty_db, [])"
proof -
  let ?e = "\<lparr>IsDir = False, Name = ''abc_invalid.sql''\<rparr>"
  let ?pre = "[\<lparr>IsDir = False, Name = ''2_users.sql''\<rparr>]"
  let ?ms = "[\<lparr>v = 2, name = ''2_users.sql'', sql = ''CREATE TABLE users(id INTEGER PRIMARY KEY);''\<rparr>]"
  have r: "ReadDir malformed_fs = Inr (?pre @ ?e # [])"
    by (simp add: malformed_fs_def)
  have v: "?e \<in> set (visible (?pre @ ?e # []))"
    by (simp add: visible_def hidden_def)
  have a: "Atoi (parts0 (Name ?e)) = Inl ErrSyntax"
    by code_simp
  have s: "\<not> int_syntax ''abc''"
    by code_simp
  have d: "discover malformed_fs ?pre [] Map.empty = Inr ?ms"
    by code_simp
  from malformed_name_fails_discovery [OF r v a, where pre = ?pre and post = "[]" and ms = ?ms
      and eng = example_engine and db = empty_db and s = "''abc''"] d s
  have "Migrate malformed_fs example_engine empty_db =
          (Some (BadName ''abc_invalid.sql'' ErrSyntax), empty_db, [])"
    by simp
  with r v a s d show ?thesis by simp
qed

text \<open>
  Claim C6 as stated fails when discovery stops before it reaches the second of the two
  artifacts: \<open>01_a.sql\<close> and \<open>1_a.sql\<close> both have version 1, but \<open>0x_b.sql\<close> is listed
  between them and the error names that file only.
\<close>

theorem shadowed_duplicate_counterexample:
  "Atoi (parts0 ''01_a.sql'') = Inr 1 \<and> Atoi (parts0 ''1_a.sql'') = Inr 1 \<and>
   Migrate shadowed_duplicate_fs example_engine empty_db =
     (Some (BadName ''0x_b.sql'' ErrSyntax), empty_db, [])"
  by code_simp

text \<open>
  Claim C6, amended. When two visible entries of the listing have the same version,
  \<open>Migrate\<close> fails before it begins a transaction: it returns the handle it was given and
  logs nothing. When moreover every entry listed before the second of the two was
  accepted, the error is the duplicate-version error with the version and the names of
  both entries.
\<close>

theorem duplicate_version_fails_discovery:
  assumes "ReadDir fsys = Inr es"
  shows "(i < j \<and> j < length (visible es) \<and>
            Atoi (parts0 (Name (visible es ! i))) = Inr x \<and>
            Atoi (parts0 (Name (visible es ! j))) = Inr x \<longrightarrow>
            (\<exists>er. Migrate fsys eng db = (Some er, db, []))) \<and>
         (es = pre @ e # post \<and> discover fsys pre [] Map.empty = Inr ms \<and>
            e1 \<in> set (visible pre) \<and> e \<in> set (visible [e]) \<and>
            Atoi (parts0 (Name e1)) = Inr x \<and> Atoi (parts0 (Name e)) = Inr x \<longrightarrow>
            Migrate fsys eng db = (Some (DuplicateVersion x (Name e1) (Name e)), db, []))"
proof (intro conjI impI)
  assume "i < j \<and> j < length (visible es) \<and>
            Atoi (parts0 (Name (visible es ! i))) = Inr x \<and>
            Atoi (parts0 (Name (visible es ! j))) = Inr x"
  then obtain er where "discover fsys es [] Map.empty = Inl er"
    using discover_fails_on_duplicate [of i j es x fsys] by blast
  from Migrate_discovery_error [OF assms this]
  show "\<exists>er. Migrate fsys eng db = (Some er, db, [])" by blast
next
  assume a: "es = pre @ e # post \<and> discover fsys pre [] Map.empty = Inr ms \<and>
            e1 \<in> set (visible pre) \<and> e \<in> set (visible [e]) \<and>
            Atoi (parts0 (Name e1)) = Inr x \<and> Atoi (parts0 (Name e)) = Inr x"
  then have d: "discover fsys pre [] Map.empty = Inr ms" by simp
  from a have e: "\<not> IsDir e" "\<not> hidden (Name e)"
    by (simp_all add: visible_def split: if_splits)
  from discover_Inr [OF d] have "list_all2 (unit_of fsys) (visible pre) ms" by simp
  with a obtain m where m: "m \<in> set ms" "unit_of fsys e1 m"
    using list_all2_pick [of "unit_of fsys" "visible pre" ms e1] by blast
  with a have "v m = x" "name m = Name e1"
    by (simp_all add: unit_of_def)
  with discover_stops_at_duplicate [OF d e _ m(1), of x post] a
  have "discover fsys es [] Map.empty = Inl (DuplicateVersion x (Name e1) (Name e))"
    by simp
  from Migrate_discovery_error [OF assms this]
  show "Migrate fsys eng db = (Some (DuplicateVersion x (Name e1) (Name e)), db, [])" .
qed

theorem duplicate_version_fails_discovery_witness:
  "ReadDir duplicate_fs =
     Inr ([\<lparr>IsDir = False, Name = ''01_a.sql''\<rparr>] @ \<lparr>IsDir = False, Name = ''1_a.sql''\<rparr> # []) \<and>
   visible (projr (ReadDir duplicate_fs)) = projr (ReadDir duplicate_fs) \<and>
   Atoi (parts0 ''01_a.sql'') = Inr 1 \<and> Atoi (parts0 ''1_a.sql'') = Inr 1 \<and>
   discover duplicate_fs [\<lparr>IsDir = False, Name = ''01_a.sql''\<rparr>] [] Map.empty =
     Inr [\<lparr>v = 1, name = ''01_a.sql'', sql = ''CREATE TABLE a(id INTEGER PRIMARY KEY);''\<rparr>] \<and>
   Migrate duplicate_fs example_engine empty_db =
     (Some (DuplicateVersion 1 ''01_a.sql'' ''1_a.sql''), empty_db, [])"
proof -
  let ?e1 = "\<lparr>IsDir = False, Name = ''01_a.sql''\<rparr>"
  let ?e = "\<lparr>IsDir = False, Name = ''1_a.sql''\<rparr>"
  let ?ms = "[\<lparr>v = 1, name = ''01_a.sql'', sql = ''CREATE TABLE a(id INTEGER PRIMARY KEY);''\<rparr>]"
  have r: "ReadDir duplicate_fs = Inr ([?e1] @ ?e # [])"
    by (simp add: duplicate_fs_def)
  have vis: "visible ([?e1] @ ?e # []) = [?e1, ?e]" "visible [?e1] = [?e1]" "visible [?e] = [?e]"
    by (simp_all add: visible_def hidden_def)
  have a: "Atoi (parts0 (Name ?e1)) = Inr 1" "Atoi (parts0 (Name ?e)) = Inr 1"
    by code_simp+
  have d: "discover duplicate_fs [?e1] [] Map.empty = Inr ?ms"
    by code_simp
  note t = duplicate_version_fails_discovery [OF r, where i = 0 and j = 1 and x = 1
      and pre = "[?e1]" and e = ?e and post = "[]" and ms = ?ms and ?e1.0 = ?e1
      and eng = example_engine and db = empty_db]
  from t [THEN conjunct1] vis a
  have "\<exists>er. Migrate duplicate_fs example_engine empty_db = (Some er, empty_db, [])"
    by simp
  moreover from t [THEN conjunct2] vis a d
  have "Migrate duplicate_fs example_engine empty_db =
          (Some (DuplicateVersion 1 ''01_a.sql'' ''1_a.sql''), empty_db, [])"
    by simp
  ultimately show ?thesis
    using r vis a d by simp
qed

subsection \<open>The transaction\<close>


lemma ExecContext_tx_ok:
  "active db = Some w \<Longrightarrow> exec_stmt eng s w = Inr w' \<Longrightarrow>
   ExecContext_tx eng s db = (None, db\<lparr>active := Some w'\<rparr>)"
  by (simp add: ExecContext_tx_def)




text \<open>The current version.\<close>

lemma max_version_Max: "xs \<noteq> [] \<Longrightarrow> max_version xs = Max (set xs)"
  by (cases xs) (simp_all add: max_version_def Max.set_eq_fold [symmetric])

lemma max_version_ge: "x \<in> set xs \<Longrightarrow> x \<le> max_version xs"
  by (cases "xs = []") (simp_all add: max_version_Max)

lemma max_version_append:
  assumes "\<forall>y\<in>set ys. max_version xs < y"
  shows "max_version xs \<le> max_version (xs @ ys)"
proof (cases "xs = []")
  case True
  show ?thesis
  proof (cases ys)
    case Nil
    with True show ?thesis by simp
  next
    case (Cons y ys')
    with assms True have "max_version [] < y" by simp
    moreover have "y \<le> max_version ys" using Cons by (simp add: max_version_ge)
    ultimately show ?thesis using True by simp
  qed
next
  case False
  then have "max_version xs \<in> set xs"
    by (simp add: max_version_Max)
  then show ?thesis by (simp add: max_version_ge)
qed


subsection \<open>A whole run\<close>
































subsection \<open>Running twice\<close>






end
